theory Spec2Isabelle
  imports Main
begin

section \<open>container-registry-proxy: the translation layer of main.go\<close>

text \<open>
  The proxy answers two registry requests from the package API of the origin
  (\<^verbatim>\<open>GET /v2/_catalog\<close> and \<^verbatim>\<open>GET /v2/{owner}/{name}/tags/list\<close>) and puts
  a reverse proxy to the upstream registry behind the router's not-found
  handler. This theory embeds \<^verbatim>\<open>GitHubUsers\<close>, \<^verbatim>\<open>Catalog\<close>, \<^verbatim>\<open>TagsList\<close> and
  the route table of \<^verbatim>\<open>NewProxy\<close>.

  Conventions of the embedding.
  \<^item> A Go pointer field (\<^verbatim>\<open>*string\<close>, \<^verbatim>\<open>*User\<close>, ...) is an \<open>option\<close>: \<open>None\<close> is
    \<^verbatim>\<open>nil\<close>. Selecting a field through a nil pointer, or dereferencing one,
    is the run-time panic \<open>NilPointerDereference\<close>, a value of the sum type.
  \<^item> The listings the origin client returns are slices of pointers: a slice
    \<^verbatim>\<open>[]*github.Package\<close> is a \<open>Package option list\<close>, and an element may be
    nil like any other pointer.
  \<^item> A slice whose nil-ness reaches the JSON encoder (nil encodes as
    \<^verbatim>\<open>null\<close>, an empty slice as \<^verbatim>\<open>[]\<close>) is a \<open>'a list option\<close>.
  \<^item> Log output is not modelled.
\<close>

subsection \<open>strings.Split and GitHubUsers\<close>

text \<open>\<^verbatim>\<open>strings.IndexByte\<close>: the index of the first occurrence, \<open>None\<close> for Go's -1.\<close>

fun IndexByte :: "string \<Rightarrow> char \<Rightarrow> nat option" where
  "IndexByte [] c = None"
| "IndexByte (x # xs) c = (if x = c then Some 0 else map_option Suc (IndexByte xs c))"

lemma IndexByte_less: "IndexByte s c = Some m \<Longrightarrow> m < length s"
  by (induction s arbitrary: m) (auto split: if_splits)

text \<open>
  \<^verbatim>\<open>strings.Split(s, sep)\<close> for a one-byte separator, following the loop of the
  standard library: cut at the first separator, continue behind it, and end
  with the rest of the string (so the empty string gives one empty part).
\<close>

function Split :: "string \<Rightarrow> char \<Rightarrow> string list" where
  "Split s sep =
     (case IndexByte s sep of
        None \<Rightarrow> [s]
      | Some m \<Rightarrow> take m s # Split (drop (m + 1) s) sep)"
  by pat_completeness auto
termination
  by (relation "measure (\<lambda>(s, sep). length s)") (auto dest: IndexByte_less)

declare Split.simps [simp del]

text \<open>
  \<^verbatim>\<open>GitHubUsers\<close> (lines 68-77). The argument is the value of the environment
  variable \<^verbatim>\<open>GITHUB_USERS\<close> (the empty string when it is unset).
\<close>

definition GitHubUsers :: "string \<Rightarrow> string list" where
  "GitHubUsers env =
     (let users = Split env (CHR '','') in
      if env \<noteq> '''' then [''''] @ users else users)"

text \<open>
  The spec's words for the split, for comparison: the parts of the string
  between its commas, read left to right.
\<close>

fun comma_parts :: "string \<Rightarrow> string list" where
  "comma_parts [] = [[]]"
| "comma_parts (c # cs) =
     (if c = CHR '','' then [] # comma_parts cs
      else (c # hd (comma_parts cs)) # tl (comma_parts cs))"

text \<open>Joining with commas, \<^verbatim>\<open>strings.Join(parts, ",")\<close>.\<close>

fun Join :: "string list \<Rightarrow> string" where
  "Join [] = []"
| "Join [p] = p"
| "Join (p # q # ps) = p @ CHR '','' # Join (q # ps)"

subsection \<open>Origin API data and the client\<close>

text \<open>
  The structs of the go-github library, with the fields main.go reads.
  \<^verbatim>\<open>Package.Name\<close>, \<^verbatim>\<open>Package.Owner\<close>, \<^verbatim>\<open>User.Login\<close>,
  \<^verbatim>\<open>PackageVersion.Metadata\<close> and \<^verbatim>\<open>PackageMetadata.Container\<close> are pointers;
  \<^verbatim>\<open>PackageContainerMetadata.Tags\<close> is a \<^verbatim>\<open>[]string\<close> that is only appended
  from, so its nil-ness is not observed.
\<close>

record User =
  Login :: "string option"

record Package =
  Name :: "string option"
  Owner :: "User option"

record PackageContainerMetadata =
  Tags :: "string list"

record PackageMetadata =
  Container :: "PackageContainerMetadata option"

record PackageVersion =
  Metadata :: "PackageMetadata option"

text \<open>
  Modelled from the spec: the \<^verbatim>\<open>GitHubClient\<close> interface is declared outside
  main.go. Section 4.1 gives its two operations; each returns either a
  transport error (here its text, what \<^verbatim>\<open>%s\<close> prints) or the listing. The
  origin API is outside the program, so the client carries a state \<open>'s\<close> of
  its own, threaded through the calls. \<^verbatim>\<open>ListPackages\<close> takes the identity and
  the package type of the options; \<^verbatim>\<open>PackageGetAllVersions\<close> takes owner,
  package type and package name.
\<close>

record 's GitHubClient =
  ListPackages :: "'s \<Rightarrow> string \<Rightarrow> string \<Rightarrow> (string + Package option list) \<times> 's"
  PackageGetAllVersions ::
    "'s \<Rightarrow> string \<Rightarrow> string \<Rightarrow> string \<Rightarrow> (string + PackageVersion option list) \<times> 's"

text \<open>
  Modelled from the spec: the constant \<^verbatim>\<open>packageType\<close> is declared outside
  main.go; section 4.1 says it selects container packages.
\<close>

definition packageType :: string where
  "packageType = ''container''"

subsection \<open>Error envelope and response writer\<close>

text \<open>
  Modelled from the spec: \<^verbatim>\<open>apiError\<close>, \<^verbatim>\<open>apiErrors\<close>, \<^verbatim>\<open>ERROR_UNKNOWN\<close> and
  \<^verbatim>\<open>makeError\<close> are declared outside main.go. Section 3 gives the envelope
  \<^verbatim>\<open>{ errors: [ { code, message, detail? } ] }\<close> and section 4.4 the body with
  one entry that \<^verbatim>\<open>makeError\<close> builds.
\<close>

datatype ErrorCode = ERROR_UNKNOWN

record apiError =
  Code :: ErrorCode
  Message :: string
  Detail :: "string option"

record apiErrors =
  Errors :: "apiError list option"

definition makeError :: "ErrorCode \<Rightarrow> string \<Rightarrow> apiErrors" where
  "makeError code message =
     \<lparr>Errors = Some [\<lparr>Code = code, Message = message, Detail = None\<rparr>]\<rparr>"

text \<open>
  Go's \<^verbatim>\<open>append(s, xs...)\<close> on a slice that may be nil: appending nothing to
  nil leaves nil, everything else is a non-nil slice.
\<close>

definition append_slice :: "'a list option \<Rightarrow> 'a list \<Rightarrow> 'a list option" where
  "append_slice s xs =
     (case s of
        None \<Rightarrow> (if xs = [] then None else Some xs)
      | Some ys \<Rightarrow> Some (ys @ xs))"

text \<open>
  The values handed to the JSON encoder, by their fields: the catalog struct
  (\<^verbatim>\<open>repositories\<close>), the tags struct (\<^verbatim>\<open>name\<close>, \<^verbatim>\<open>tags\<close>) and the error
  envelope. A slice field that is \<open>None\<close> encodes as \<^verbatim>\<open>null\<close>.
\<close>

datatype Body =
  CatalogJSON "string list option"
| TagsJSON string "string list option"
| ErrorsJSON apiErrors

text \<open>
  \<^verbatim>\<open>http.ResponseWriter\<close>: the header map, the status code once it is written,
  and the values encoded into the body so far. \<^verbatim>\<open>WriteHeader\<close> has an effect
  only the first time; the first write without one sends status 200.
\<close>

record ResponseWriter =
  Header :: "string \<rightharpoonup> string list"
  StatusCode :: "nat option"
  Written :: "Body list"

definition NewResponseWriter :: ResponseWriter where
  "NewResponseWriter = \<lparr>Header = Map.empty, StatusCode = None, Written = []\<rparr>"

definition Header_Set :: "ResponseWriter \<Rightarrow> string \<Rightarrow> string \<Rightarrow> ResponseWriter" where
  "Header_Set w key val = w\<lparr>Header := (Header w)(key \<mapsto> [val])\<rparr>"

definition WriteHeader :: "ResponseWriter \<Rightarrow> nat \<Rightarrow> ResponseWriter" where
  "WriteHeader w code = (if StatusCode w = None then w\<lparr>StatusCode := Some code\<rparr> else w)"

definition Encode :: "ResponseWriter \<Rightarrow> Body \<Rightarrow> ResponseWriter" where
  "Encode w v =
     (let w' = WriteHeader w 200 in w'\<lparr>Written := Written w' @ [v]\<rparr>)"

subsection \<open>Catalog\<close>

datatype error = NilPointerDereference

fun bind_e :: "error + 'a \<Rightarrow> ('a \<Rightarrow> error + 'b) \<Rightarrow> error + 'b" where
  "bind_e (Inl e) f = Inl e"
| "bind_e (Inr v) f = f v"

text \<open>\<^verbatim>\<open>*p\<close> for a pointer \<open>p\<close>.\<close>

definition deref :: "'a option \<Rightarrow> error + 'a" where
  "deref p = (case p of None \<Rightarrow> Inl NilPointerDereference | Some v \<Rightarrow> Inr v)"

text \<open>\<^verbatim>\<open>p.f\<close> for a pointer \<open>p\<close> to a struct with the field \<open>f\<close>.\<close>

definition field :: "'a option \<Rightarrow> ('a \<Rightarrow> 'b) \<Rightarrow> error + 'b" where
  "field p f = bind_e (deref p) (\<lambda>v. Inr (f v))"

text \<open>
  \<^verbatim>\<open>pack.Owner.Login\<close>: the field \<^verbatim>\<open>Owner\<close> is read through the pointer \<^verbatim>\<open>pack\<close>
  and the field \<^verbatim>\<open>Login\<close> through the pointer \<^verbatim>\<open>pack.Owner\<close>; either read
  panics when its pointer is nil.
\<close>

definition Owner_Login :: "Package option \<Rightarrow> error + string option" where
  "Owner_Login pack = bind_e (field pack Owner) (\<lambda>owner. field owner Login)"

text \<open>
  The guard of lines 101 and 140,
  \<^verbatim>\<open>pack.Name == nil || pack.Owner.Login == nil\<close>; the right operand is
  evaluated only when the left one is false.
\<close>

definition missing_field :: "Package option \<Rightarrow> error + bool" where
  "missing_field pack =
     bind_e (field pack Name) (\<lambda>name.
       if name = None then Inr True
       else bind_e (Owner_Login pack) (\<lambda>login. Inr (login = None)))"

text \<open>
  The comparison of line 106,
  \<^verbatim>\<open>*tempPack.Name == *pack.Name && *tempPack.Owner.Login == *pack.Owner.Login\<close>.
\<close>

definition same_package :: "Package option \<Rightarrow> Package option \<Rightarrow> error + bool" where
  "same_package tempPack pack =
     bind_e (bind_e (field tempPack Name) deref) (\<lambda>tn.
     bind_e (bind_e (field pack Name) deref) (\<lambda>pn.
       if tn \<noteq> pn then Inr False
       else
         bind_e (bind_e (Owner_Login tempPack) deref) (\<lambda>tl.
         bind_e (bind_e (Owner_Login pack) deref) (\<lambda>pl.
           Inr (tl = pl)))))"

text \<open>Lines 104-110: the linear scan of \<^verbatim>\<open>packages\<close> that sets \<^verbatim>\<open>found\<close>.\<close>

fun scan_found :: "Package option \<Rightarrow> Package option list \<Rightarrow> error + bool" where
  "scan_found tempPack [] = Inr False"
| "scan_found tempPack (pack # rest) =
     bind_e (same_package tempPack pack) (\<lambda>same.
       if same then Inr True else scan_found tempPack rest)"

text \<open>
  Lines 100-115: the loop over \<^verbatim>\<open>tempPackages\<close>, returning the new value of
  \<^verbatim>\<open>packages\<close>. The counter \<^verbatim>\<open>newPackages\<close> is only logged.
\<close>

fun add_packages ::
  "Package option list \<Rightarrow> Package option list \<Rightarrow> error + Package option list" where
  "add_packages [] packages = Inr packages"
| "add_packages (tempPack # rest) packages =
     bind_e (missing_field tempPack) (\<lambda>skip.
       if skip then add_packages rest packages
       else
         bind_e (scan_found tempPack packages) (\<lambda>found.
           if \<not> found then add_packages rest (packages @ [tempPack])
           else add_packages rest packages))"

text \<open>The three variables the fan-out loop updates (lines 88-90).\<close>

record accum =
  successes :: nat
  packages :: "Package option list"
  errors :: apiErrors

definition accum0 :: accum where
  "accum0 = \<lparr>successes = 0, packages = [], errors = \<lparr>Errors = None\<rparr>\<rparr>"

text \<open>
  One iteration of the loop of lines 91-118, given what \<^verbatim>\<open>ListPackages\<close>
  returned for the identity. The source increments \<^verbatim>\<open>successes\<close> before the
  inner loop; a panic of the inner loop discards the counter with the rest.
\<close>

definition fanout_step :: "(string + Package option list) \<Rightarrow> accum \<Rightarrow> error + accum" where
  "fanout_step r a =
     (case r of
        Inl err \<Rightarrow>
          Inr (a\<lparr>errors :=
                 \<lparr>Errors = append_slice (Errors (errors a))
                    [\<lparr>Code = ERROR_UNKNOWN, Message = ''ListPackages: '' @ err,
                      Detail = None\<rparr>]\<rparr>\<rparr>)
      | Inr tempPackages \<Rightarrow>
          bind_e (add_packages tempPackages (packages a)) (\<lambda>ps.
            Inr (a\<lparr>successes := successes a + 1, packages := ps\<rparr>)))"

text \<open>
  The loop over the identities. It returns the client's state as well, also
  when an iteration panics and the remaining identities are never queried.
\<close>

fun fanout ::
  "'s GitHubClient \<Rightarrow> string list \<Rightarrow> 's \<Rightarrow> accum \<Rightarrow> (error + accum) \<times> 's" where
  "fanout c [] s a = (Inr a, s)"
| "fanout c (user # users) s a =
     (case ListPackages c s user packageType of
        (r, s') \<Rightarrow>
          (case fanout_step r a of
             Inl e \<Rightarrow> (Inl e, s')
           | Inr a' \<Rightarrow> fanout c users s' a'))"

text \<open>Lines 139-148: the loop that formats \<^verbatim>\<open>catalog.Repositories\<close>.\<close>

fun repositories ::
  "Package option list \<Rightarrow> string list option \<Rightarrow> error + string list option" where
  "repositories [] reps = Inr reps"
| "repositories (pack # rest) reps =
     bind_e (missing_field pack) (\<lambda>skip.
       if skip then repositories rest reps
       else
         bind_e (bind_e (Owner_Login pack) deref) (\<lambda>login.
         bind_e (bind_e (field pack Name) deref) (\<lambda>name.
           repositories rest (append_slice reps [login @ ''/'' @ name]))))"

text \<open>
  \<^verbatim>\<open>Catalog\<close> (lines 80-150). \<open>env\<close> is the value of \<^verbatim>\<open>GITHUB_USERS\<close>, \<open>s\<close> the
  state of the origin, \<open>w\<close> the response writer. A panic leaves no response.
\<close>

definition Catalog ::
  "'s GitHubClient \<Rightarrow> string \<Rightarrow> 's \<Rightarrow> ResponseWriter \<Rightarrow> (error + ResponseWriter) \<times> 's" where
  "Catalog c env s w =
     (let users = GitHubUsers env;
          w1 = Header_Set w ''Content-Type'' ''application/json''
      in case fanout c users s accum0 of
           (Inl e, s') \<Rightarrow> (Inl e, s')
         | (Inr a, s') \<Rightarrow>
             if successes a = 0
             then (Inr (Encode (WriteHeader w1 400) (ErrorsJSON (errors a))), s')
             else (bind_e (repositories (packages a) (Some []))
                     (\<lambda>reps. Inr (Encode w1 (CatalogJSON reps))), s'))"

subsection \<open>TagsList\<close>

text \<open>
  The guard of line 176,
  \<^verbatim>\<open>version.Metadata == nil || version.Metadata.Container == nil\<close>: both
  operands read \<^verbatim>\<open>Metadata\<close> through the pointer \<^verbatim>\<open>version\<close>; the right one is
  evaluated only when the metadata is there.
\<close>

definition no_container :: "PackageVersion option \<Rightarrow> error + bool" where
  "no_container version =
     bind_e (field version Metadata) (\<lambda>metadata.
       if metadata = None then Inr True
       else bind_e (bind_e (field version Metadata) (\<lambda>m. field m Container))
              (\<lambda>container. Inr (container = None)))"

text \<open>
  Lines 175-184: the loop that appends each version's container tags,
  \<^verbatim>\<open>version.Metadata.Container.Tags\<close>.
\<close>

fun append_tags ::
  "PackageVersion option list \<Rightarrow> string list option \<Rightarrow> error + string list option" where
  "append_tags [] tags = Inr tags"
| "append_tags (version # rest) tags =
     bind_e (no_container version) (\<lambda>skip.
       if skip then append_tags rest tags
       else
         bind_e (bind_e (bind_e (field version Metadata) (\<lambda>m. field m Container))
                   (\<lambda>ct. field ct Tags))
           (\<lambda>version_tags. append_tags rest (append_slice tags version_tags)))"

text \<open>
  \<^verbatim>\<open>TagsList\<close> (lines 153-186). \<open>owner\<close> and \<open>name\<close> are the values
  \<^verbatim>\<open>chi.URLParam\<close> returns for the request. A panic leaves no response.
\<close>

definition TagsList ::
  "'s GitHubClient \<Rightarrow> string \<Rightarrow> string \<Rightarrow> 's \<Rightarrow> ResponseWriter \<Rightarrow>
   (error + ResponseWriter) \<times> 's" where
  "TagsList c owner name s w =
     (let w1 = Header_Set w ''Content-Type'' ''application/json''
      in case PackageGetAllVersions c s owner packageType name of
           (Inl err, s') \<Rightarrow>
             (Inr (Encode (WriteHeader w1 400)
                (ErrorsJSON (makeError ERROR_UNKNOWN (''PackageGetAllVersions: '' @ err)))),
              s')
         | (Inr versions, s') \<Rightarrow>
             (bind_e (append_tags versions (Some []))
                (\<lambda>tags. Inr (Encode w1 (TagsJSON (owner @ ''/'' @ name) tags))), s'))"

subsection \<open>The router of NewProxy\<close>

text \<open>
  \<^verbatim>\<open>NewProxy\<close> (lines 49-60) builds a chi router: two routes registered with
  \<^verbatim>\<open>router.Get\<close> and a \<^verbatim>\<open>NotFound\<close> handler that serves the request through the
  upstream proxy. It registers no \<^verbatim>\<open>MethodNotAllowed\<close> handler. The router
  itself is the chi library (v5); its dispatch (\<^verbatim>\<open>Mux.routeHTTP\<close>) is modelled
  here as the library documents it: a method chi does not know, or a path
  that matches a route registered for other methods only, goes to the
  method-not-allowed handler (by default a bare 405); a path that matches no
  route goes to the not-found handler (by default a 404). The timeout
  middleware does not take part in the dispatch and is left out.
\<close>

datatype Handler =
  CatalogHandler
| TagsListHandler
| UpstreamProxyHandler
| DefaultNotFound404
| DefaultMethodNotAllowed405

record Route =
  RouteMethod :: string
  RoutePattern :: string
  RouteHandler :: Handler

record Mux =
  routes :: "Route list"
  notFoundHandler :: "Handler option"
  methodNotAllowedHandler :: "Handler option"

definition NewRouter :: Mux where
  "NewRouter = \<lparr>routes = [], notFoundHandler = None, methodNotAllowedHandler = None\<rparr>"

definition Get :: "Mux \<Rightarrow> string \<Rightarrow> Handler \<Rightarrow> Mux" where
  "Get mx pattern h =
     mx\<lparr>routes := routes mx @
          [\<lparr>RouteMethod = ''GET'', RoutePattern = pattern, RouteHandler = h\<rparr>]\<rparr>"

definition NotFound :: "Mux \<Rightarrow> Handler \<Rightarrow> Mux" where
  "NotFound mx h = mx\<lparr>notFoundHandler := Some h\<rparr>"

definition NewProxy_router :: Mux where
  "NewProxy_router =
     (let router = NewRouter;
          router = Get router ''/v2/_catalog'' CatalogHandler;
          router = Get router ''/v2/{owner}/{name}/tags/list'' TagsListHandler
      in NotFound router UpstreamProxyHandler)"

text \<open>
  A route pattern against a request path, segment by segment: a segment
  \<^verbatim>\<open>{param}\<close> of the pattern stands for any one segment of the path, every
  other segment for itself. (Whether chi lets a parameter stand for an
  empty segment plays no part in what is proved below.)
\<close>

definition is_param :: "string \<Rightarrow> bool" where
  "is_param seg = (seg \<noteq> [] \<and> hd seg = CHR ''{'' \<and> last seg = CHR ''}'')"

fun match_segments :: "string list \<Rightarrow> string list \<Rightarrow> bool" where
  "match_segments [] [] = True"
| "match_segments (p # ps) (x # xs) = ((is_param p \<or> p = x) \<and> match_segments ps xs)"
| "match_segments [] (x # xs) = False"
| "match_segments (p # ps) [] = False"

definition pattern_matches :: "string \<Rightarrow> string \<Rightarrow> bool" where
  "pattern_matches pattern path =
     match_segments (Split pattern (CHR ''/'')) (Split path (CHR ''/''))"

definition methodMap :: "string list" where
  "methodMap =
     [''CONNECT'', ''DELETE'', ''GET'', ''HEAD'', ''OPTIONS'', ''PATCH'', ''POST'', ''PUT'',
      ''TRACE'']"

definition NotFoundHandler :: "Mux \<Rightarrow> Handler" where
  "NotFoundHandler mx =
     (case notFoundHandler mx of Some h \<Rightarrow> h | None \<Rightarrow> DefaultNotFound404)"

definition MethodNotAllowedHandler :: "Mux \<Rightarrow> Handler" where
  "MethodNotAllowedHandler mx =
     (case methodNotAllowedHandler mx of Some h \<Rightarrow> h | None \<Rightarrow> DefaultMethodNotAllowed405)"

definition routeHTTP :: "Mux \<Rightarrow> string \<Rightarrow> string \<Rightarrow> Handler" where
  "routeHTTP mx method path =
     (if method \<notin> set methodMap then MethodNotAllowedHandler mx
      else
        (case find (\<lambda>r. RouteMethod r = method \<and> pattern_matches (RoutePattern r) path)
                (routes mx) of
           Some r \<Rightarrow> RouteHandler r
         | None \<Rightarrow>
             if list_ex (\<lambda>r. pattern_matches (RoutePattern r) path) (routes mx)
             then MethodNotAllowedHandler mx
             else NotFoundHandler mx))"

subsection \<open>Notions used to state the properties\<close>

text \<open>
  What the origin answers to \<^verbatim>\<open>ListPackages\<close> for the identities, one call
  after the other from state \<open>s\<close>.
\<close>

fun results ::
  "'s GitHubClient \<Rightarrow> 's \<Rightarrow> string list \<Rightarrow> (string + Package option list) list" where
  "results c s [] = []"
| "results c s (user # users) =
     (case ListPackages c s user packageType of (r, s') \<Rightarrow> r # results c s' users)"

text \<open>The listings of the calls that succeeded, and the error texts of the others.\<close>

fun fetched :: "(string + 'a) list \<Rightarrow> 'a list" where
  "fetched [] = []"
| "fetched (Inl err # rs) = fetched rs"
| "fetched (Inr x # rs) = x # fetched rs"

fun failures :: "(string + 'a) list \<Rightarrow> string list" where
  "failures [] = []"
| "failures (Inl err # rs) = err # failures rs"
| "failures (Inr x # rs) = failures rs"

text \<open>The envelope entry of a failed call.\<close>

definition error_entry :: "string \<Rightarrow> apiError" where
  "error_entry err =
     \<lparr>Code = ERROR_UNKNOWN, Message = ''ListPackages: '' @ err, Detail = None\<rparr>"

text \<open>The iterations of the fan-out loop, and its inner loop, on given answers.\<close>

fun run_steps :: "(string + Package option list) list \<Rightarrow> accum \<Rightarrow> error + accum" where
  "run_steps [] a = Inr a"
| "run_steps (r # rs) a = bind_e (fanout_step r a) (run_steps rs)"

fun add_all ::
  "Package option list list \<Rightarrow> Package option list \<Rightarrow> error + Package option list" where
  "add_all [] ps = Inr ps"
| "add_all (t # ts) ps = bind_e (add_packages t ps) (add_all ts)"

text \<open>
  The identity key of a package record, \<open>(namespace_login, name)\<close>, when the
  record is there and both are present, and the catalog entry of a key.
\<close>

definition key :: "Package option \<Rightarrow> (string \<times> string) option" where
  "key pack =
     (case pack of
        None \<Rightarrow> None
      | Some p \<Rightarrow>
          (case (Owner p, Name p) of
             (Some u, Some n) \<Rightarrow> (case Login u of Some l \<Rightarrow> Some (l, n) | None \<Rightarrow> None)
           | _ \<Rightarrow> None))"

definition entry :: "string \<times> string \<Rightarrow> string" where
  "entry k = fst k @ ''/'' @ snd k"

text \<open>
  The shape the spec asks of a repository string: exactly one \<^verbatim>\<open>/\<close>, with a
  non-empty part before it and a non-empty part after it.
\<close>

definition one_slash_nonempty_halves :: "string \<Rightarrow> bool" where
  "one_slash_nonempty_halves r =
     (count_list r (CHR ''/'') = 1 \<and>
      takeWhile (\<lambda>ch. ch \<noteq> CHR ''/'') r \<noteq> [] \<and>
      drop 1 (dropWhile (\<lambda>ch. ch \<noteq> CHR ''/'') r) \<noteq> [])"

text \<open>
  An element of a listing on which the guard of line 101 can be evaluated:
  the element is not nil, and its name is nil (the owner is then never looked
  at) or its owner object is present.
\<close>

definition guard_defined :: "Package option \<Rightarrow> bool" where
  "guard_defined pack =
     (case pack of None \<Rightarrow> False | Some p \<Rightarrow> Name p = None \<or> Owner p \<noteq> None)"

text \<open>
  The spec's words for the accumulation (section 4.3): walk the returned
  records in order, skip a record without a key, and append a record only if
  its key is not yet among the accumulated ones.
\<close>

fun first_observations ::
  "Package option list \<Rightarrow> Package option list \<Rightarrow> Package option list" where
  "first_observations [] ps = ps"
| "first_observations (t # ts) ps =
     (if key t = None \<or> key t \<in> set (map key ps) then first_observations ts ps
      else first_observations ts (ps @ [t]))"

text \<open>
  What the client of the proxy receives from a handler that may panic: the
  status code and the encoded bodies, or nothing but the panic.
\<close>

definition sent :: "(error + ResponseWriter) \<times> 's \<Rightarrow> error + (nat option \<times> Body list)" where
  "sent r = map_sum id (\<lambda>w. (StatusCode w, Written w)) (fst r)"

text \<open>The container metadata of an element of a version listing, when it has one.\<close>

definition version_container :: "PackageVersion option \<Rightarrow> PackageContainerMetadata option" where
  "version_container version =
     (case version of
        None \<Rightarrow> None
      | Some v \<Rightarrow> (case Metadata v of None \<Rightarrow> None | Some m \<Rightarrow> Container m))"

text \<open>
  A stub origin, as a test would substitute it: it answers \<^verbatim>\<open>ListPackages\<close> by
  call number and identity, \<^verbatim>\<open>PackageGetAllVersions\<close> by owner and name, and
  its state is the list of the identities it was asked for.
\<close>

definition stub_client ::
  "(nat \<Rightarrow> string \<Rightarrow> string + Package option list) \<Rightarrow>
   (string \<Rightarrow> string \<Rightarrow> string + PackageVersion option list) \<Rightarrow>
   string list GitHubClient" where
  "stub_client lp gv =
     \<lparr>ListPackages = (\<lambda>log user ptype. (lp (length log) user, log @ [user])),
      PackageGetAllVersions = (\<lambda>log owner ptype name. (gv owner name, log @ [owner]))\<rparr>"

subsection \<open>Concrete inputs\<close>

text \<open>
  Four versions: one with two tags, one without metadata, one without
  container metadata, one with a tag the first one carries too.
\<close>

definition versions_S5 :: "PackageVersion option list" where
  "versions_S5 =
     [Some \<lparr>Metadata = Some \<lparr>Container = Some \<lparr>Tags = [''latest'', ''v1'']\<rparr>\<rparr>\<rparr>,
      Some \<lparr>Metadata = None\<rparr>,
      Some \<lparr>Metadata = Some \<lparr>Container = None\<rparr>\<rparr>,
      Some \<lparr>Metadata = Some \<lparr>Container = Some \<lparr>Tags = [''v1'']\<rparr>\<rparr>\<rparr>]"

text \<open>A version listing that holds a version with one tag and a nil element.\<close>

definition origin_nil_version :: "string list GitHubClient" where
  "origin_nil_version =
     stub_client (\<lambda>n user. Inl ''not stubbed'')
       (\<lambda>owner name.
          Inr [Some \<lparr>Metadata = Some \<lparr>Container = Some \<lparr>Tags = [''latest'']\<rparr>\<rparr>\<rparr>, None])"

text \<open>A complete package record, and stub origins that answer \<^verbatim>\<open>ListPackages\<close> only.\<close>

definition pkg :: "string \<Rightarrow> string \<Rightarrow> Package option" where
  "pkg login name = Some \<lparr>Name = Some name, Owner = Some \<lparr>Login = Some login\<rparr>\<rparr>"

definition packages_stub ::
  "(nat \<Rightarrow> string \<Rightarrow> string + Package option list) \<Rightarrow> string list GitHubClient" where
  "packages_stub lp = stub_client lp (\<lambda>owner name. Inl ''not stubbed'')"

text \<open>
  The authenticated identity fails; the namespace \<^verbatim>\<open>org1\<close> lists one record
  that has a name and no owner object.
\<close>

definition origin_owner_absent_after_failure :: "string list GitHubClient" where
  "origin_owner_absent_after_failure =
     packages_stub (\<lambda>n user.
       if user = '''' then Inl ''boom''
       else Inr [Some \<lparr>Name = Some ''x'', Owner = None\<rparr>])"

text \<open>One complete record and one record that has a name and no owner object.\<close>

definition origin_owner_absent :: "string list GitHubClient" where
  "origin_owner_absent =
     packages_stub (\<lambda>n user.
       Inr [pkg ''u1'' ''alpha'', Some \<lparr>Name = Some ''beta'', Owner = None\<rparr>])"

text \<open>A container package whose name has two path segments.\<close>

definition origin_nested_name :: "string list GitHubClient" where
  "origin_nested_name = packages_stub (\<lambda>n user. Inr [pkg ''u'' ''repo/image''])"

text \<open>Two records with different keys and the same catalog entry.\<close>

definition origin_slash_in_login :: "string list GitHubClient" where
  "origin_slash_in_login =
     packages_stub (\<lambda>n user. Inr [pkg ''a/b'' ''c'', pkg ''a'' ''b/c''])"

text \<open>
  A listing with a record twice, a record without a name, a record whose
  owner has no login, and a second package.
\<close>

definition listing_S3 :: "Package option list" where
  "listing_S3 =
     [pkg ''org1'' ''x'', Some \<lparr>Name = None, Owner = None\<rparr>, pkg ''org1'' ''x'',
      Some \<lparr>Name = Some ''y'', Owner = Some \<lparr>Login = None\<rparr>\<rparr>, pkg ''org1'' ''z'']"

text \<open>
  Scenario S3 with that listing: the authenticated identity fails, every
  other identity gets the listing.
\<close>

definition origin_S3 :: "string list GitHubClient" where
  "origin_S3 =
     packages_stub (\<lambda>n user. if user = '''' then Inl ''boom'' else Inr listing_S3)"

text \<open>The same listing with the failing call in another place.\<close>

definition origin_S3_late_failure :: "string list GitHubClient" where
  "origin_S3_late_failure =
     packages_stub (\<lambda>n user.
       if user = ''down'' then Inl ''timeout''
       else if user = '''' then Inr listing_S3
       else Inl ''boom'')"

text \<open>Scenario S4: every call fails with the message \<^verbatim>\<open>boom\<close>.\<close>

definition origin_S4 :: "string list GitHubClient" where
  "origin_S4 = packages_stub (\<lambda>n user. Inl ''boom'')"

section \<open>Properties\<close>

subsection \<open>The identity sequence\<close>

lemma comma_parts_nonempty: "comma_parts s \<noteq> []"
  by (induction s) auto

lemma Split_Nil: "Split [] sep = [[]]"
  by (simp add: Split.simps)

lemma Split_Cons:
  "Split (c # cs) sep =
     (if c = sep then [] # Split cs sep
      else (c # hd (Split cs sep)) # tl (Split cs sep))"
  by (cases "IndexByte cs sep")
     (simp_all add: Split.simps [of "c # cs" sep] Split.simps [of cs sep])

lemma Split_comma_parts: "Split s (CHR '','') = comma_parts s"
  by (induction s) (simp_all add: Split_Nil Split_Cons)

lemma Join_Cons_Cons: "Join ((c # p) # ps) = c # Join (p # ps)"
  by (cases ps) auto

lemma Join_comma_parts: "Join (comma_parts s) = s"
proof (induction s)
  case Nil
  show ?case by simp
next
  case (Cons c cs)
  obtain p ps where ps: "comma_parts cs = p # ps"
    using comma_parts_nonempty [of cs] by (cases "comma_parts cs") auto
  with Cons show ?case by (auto simp: Join_Cons_Cons)
qed

lemma comma_parts_no_comma: "p \<in> set (comma_parts s) \<Longrightarrow> CHR '','' \<notin> set p"
proof (induction s arbitrary: p)
  case Nil
  then show ?case by simp
next
  case (Cons c cs)
  obtain q qs where qs: "comma_parts cs = q # qs"
    using comma_parts_nonempty [of cs] by (cases "comma_parts cs") auto
  with Cons show ?case by (auto split: if_splits)
qed

lemma length_comma_parts: "length (comma_parts s) = Suc (count_list s (CHR '',''))"
proof (induction s)
  case Nil
  show ?case by simp
next
  case (Cons c cs)
  obtain q qs where qs: "comma_parts cs = q # qs"
    using comma_parts_nonempty [of cs] by (cases "comma_parts cs") auto
  with Cons show ?case by auto
qed

text \<open>
  C3. For the empty configuration string the identity sequence is \<open>[""]\<close>;
  otherwise it is \<open>[""]\<close> followed by the comma-split parts of the string. The
  parts are the pieces between the commas in their order: joined with commas
  they give the string back unchanged (nothing is trimmed, dropped or
  merged), no part holds a comma, and there is one part more than commas.
\<close>

theorem C3_GitHubUsers_identity_sequence:
  "GitHubUsers env = (if env = '''' then [''''] else [''''] @ comma_parts env) \<and>
   Join (comma_parts env) = env \<and>
   (\<forall>p \<in> set (comma_parts env). CHR '','' \<notin> set p) \<and>
   length (comma_parts env) = Suc (count_list env (CHR '',''))"
  by (simp add: GitHubUsers_def Split_comma_parts Split_Nil Join_comma_parts
      comma_parts_no_comma length_comma_parts)

theorem C3_GitHubUsers_identity_sequence_witness:
  "GitHubUsers ''a,b'' = ['''', ''a'', ''b''] \<and> GitHubUsers '''' = [''''] \<and>
   GitHubUsers ''b, a,,b'' = ['''', ''b'', '' a'', '''', ''b'']"
proof -
  have e1: "comma_parts ''a,b'' = [''a'', ''b'']" by code_simp
  have e2: "comma_parts ''b, a,,b'' = [''b'', '' a'', '''', ''b'']" by code_simp
  have "GitHubUsers ''a,b'' = ['''', ''a'', ''b'']"
    using C3_GitHubUsers_identity_sequence [of "''a,b''", THEN conjunct1]
    unfolding e1 by simp
  moreover have "GitHubUsers '''' = ['''']"
    using C3_GitHubUsers_identity_sequence [of "''''", THEN conjunct1] by simp
  moreover have "GitHubUsers ''b, a,,b'' = ['''', ''b'', '' a'', '''', ''b'']"
    using C3_GitHubUsers_identity_sequence [of "''b, a,,b''", THEN conjunct1]
    unfolding e2 by simp
  ultimately show ?thesis by simp
qed

subsection \<open>The tag list\<close>

lemma no_container_cases:
  "no_container version =
     (case version of
        None \<Rightarrow> Inl NilPointerDereference
      | Some v \<Rightarrow> Inr (version_container version = None))"
  by (simp add: no_container_def field_def deref_def version_container_def
      split: option.splits)

lemma container_Tags:
  "version_container version = Some ct \<Longrightarrow>
     bind_e (bind_e (field version Metadata) (\<lambda>m. field m Container)) (\<lambda>ct. field ct Tags) =
       Inr (Tags ct)"
  by (auto simp: version_container_def field_def deref_def split: option.splits)

lemma append_tags_eq:
  "append_tags versions (Some tags) =
     (if None \<in> set versions then Inl NilPointerDereference
      else Inr (Some (tags @ concat (map Tags (List.map_filter version_container versions)))))"
proof (induction versions arbitrary: tags)
  case Nil
  show ?case by (simp add: List.map_filter_simps)
next
  case (Cons version versions)
  show ?case
  proof (cases version)
    case None
    then show ?thesis by (simp add: no_container_cases)
  next
    case (Some v)
    show ?thesis
    proof (cases "version_container version")
      case None
      with Some Cons show ?thesis
        by (simp add: no_container_cases List.map_filter_simps)
    next
      case ct: (Some ct)
      with Some Cons container_Tags [OF ct] show ?thesis
        by (simp add: no_container_cases List.map_filter_simps append_slice_def)
    qed
  qed
qed

text \<open>
  When the call for the versions succeeds and no element of the listing is
  nil, \<^verbatim>\<open>TagsList\<close> answers with status 200 and one body whose name is
  \<open>owner + "/" + name\<close> and whose tags are the tag lists of the versions that
  have container metadata, concatenated in the order of the versions; the
  versions without metadata or without container metadata are the only ones
  left out.
\<close>

lemma TagsList_success:
  assumes "PackageGetAllVersions c s owner packageType name = (Inr versions, s')"
    and "None \<notin> set versions"
    and "StatusCode w = None"
  shows "\<exists>w'. TagsList c owner name s w = (Inr w', s') \<and>
     StatusCode w' = Some 200 \<and>
     Written w' = Written w @
       [TagsJSON (owner @ ''/'' @ name)
          (Some (concat (map Tags (List.map_filter version_container versions))))]"
  using assms
  by (simp add: TagsList_def Header_Set_def Encode_def WriteHeader_def append_tags_eq)

text \<open>Scenario S5, with two more versions.\<close>

lemma TagsList_S5:
  "sent (TagsList (stub_client (\<lambda>n u. Inl ''unused'') (\<lambda>owner name. Inr versions_S5))
          ''u'' ''p'' [] NewResponseWriter) =
     Inr (Some 200, [TagsJSON ''u/p'' (Some [''latest'', ''v1'', ''v1''])])"
  by code_simp

text \<open>A nil element anywhere in a successful listing makes the handler panic.\<close>

lemma TagsList_nil_element:
  assumes "PackageGetAllVersions c s owner packageType name = (Inr versions, s')"
    and "None \<in> set versions"
  shows "TagsList c owner name s w = (Inl NilPointerDereference, s')"
  using assms by (simp add: TagsList_def append_tags_eq)

text \<open>
  C4 (the code at an input where it departs from the claim). The call for the
  versions of \<^verbatim>\<open>u/p\<close> succeeds with a listing of a version tagged \<^verbatim>\<open>latest\<close>
  and a nil element. The loop of line 175 reads \<^verbatim>\<open>version.Metadata\<close> through
  the nil element at line 176 and the handler panics: there is no response
  with status 200 and tags \<^verbatim>\<open>latest\<close>.
\<close>

theorem C4_nil_version_panics:
  "PackageGetAllVersions origin_nil_version [] ''u'' packageType ''p'' =
     (Inr [Some \<lparr>Metadata = Some \<lparr>Container = Some \<lparr>Tags = [''latest'']\<rparr>\<rparr>\<rparr>, None], [''u'']) \<and>
   sent (TagsList origin_nil_version ''u'' ''p'' [] NewResponseWriter) =
     Inl NilPointerDereference"
  by code_simp

subsection \<open>The router\<close>

text \<open>
  A request whose path matches one of the two routes and whose method is a
  method other than GET that chi knows never reaches the upstream proxy: the
  router answers it with the default method-not-allowed handler.
\<close>

lemma routeHTTP_matched_path_other_method:
  assumes "method \<in> set methodMap" and "method \<noteq> ''GET''"
    and "pattern_matches ''/v2/_catalog'' path \<or>
         pattern_matches ''/v2/{owner}/{name}/tags/list'' path"
  shows "routeHTTP NewProxy_router method path = DefaultMethodNotAllowed405"
  using assms
  by (auto simp: routeHTTP_def NewProxy_router_def NewRouter_def Get_def NotFound_def
      MethodNotAllowedHandler_def)

text \<open>
  C8 (the code at an input where it departs from the claim). The request
  \<^verbatim>\<open>POST /v2/_catalog\<close> matches the catalog route by its path and not by its
  method. The router does not hand it to the upstream proxy: it answers with
  the default method-not-allowed handler (status 405). The same path with GET
  reaches \<^verbatim>\<open>Catalog\<close>, and a path that matches no route reaches the upstream
  proxy.
\<close>

theorem C8_POST_catalog_not_forwarded:
  "routeHTTP NewProxy_router ''POST'' ''/v2/_catalog'' = DefaultMethodNotAllowed405 \<and>
   routeHTTP NewProxy_router ''GET'' ''/v2/_catalog'' = CatalogHandler \<and>
   routeHTTP NewProxy_router ''GET'' ''/v2/u/p/manifests/latest'' = UpstreamProxyHandler"
  by code_simp

subsection \<open>The fan-out loop of Catalog\<close>

lemma append_slice_Nil [simp]: "append_slice s [] = s"
  by (simp add: append_slice_def split: option.splits)

lemma append_slice_Some [simp]: "append_slice (Some xs) ys = Some (xs @ ys)"
  by (simp add: append_slice_def)

lemma append_slice_append:
  "append_slice (append_slice s xs) ys = append_slice s (xs @ ys)"
  by (simp add: append_slice_def split: option.splits)

lemma append_slice_None_Cons: "append_slice None (x # xs) = Some (x # xs)"
  by (simp add: append_slice_def)

lemma fanout_results: "fst (fanout c users s a) = run_steps (results c s users) a"
proof (induction users arbitrary: s a)
  case Nil
  show ?case by simp
next
  case (Cons user users)
  obtain r s' where call: "ListPackages c s user packageType = (r, s')"
    by (cases "ListPackages c s user packageType")
  show ?case
  proof (cases "fanout_step r a")
    case (Inl e)
    with call show ?thesis by simp
  next
    case (Inr a')
    with call Cons [of s' a'] show ?thesis by simp
  qed
qed

lemma fanout_step_Inl:
  "fanout_step (Inl err) a =
     Inr (a\<lparr>errors := \<lparr>Errors = append_slice (Errors (errors a)) [error_entry err]\<rparr>\<rparr>)"
  by (simp add: fanout_step_def error_entry_def)

lemma fanout_step_Inr:
  "fanout_step (Inr tempPackages) a =
     bind_e (add_packages tempPackages (packages a))
       (\<lambda>ps. Inr (a\<lparr>successes := successes a + 1, packages := ps\<rparr>))"
  by (simp add: fanout_step_def)

lemma run_steps_char:
  "run_steps rs a =
     bind_e (add_all (fetched rs) (packages a))
       (\<lambda>ps. Inr \<lparr>successes = successes a + length (fetched rs), packages = ps,
           errors = \<lparr>Errors = append_slice (Errors (errors a))
                      (map error_entry (failures rs))\<rparr>\<rparr>)"
proof (induction rs arbitrary: a)
  case Nil
  show ?case by simp
next
  case (Cons r rs)
  show ?case
  proof (cases r)
    case (Inl err)
    then show ?thesis
      by (simp add: fanout_step_Inl Cons append_slice_append)
  next
    case (Inr t)
    show ?thesis
    proof (cases "add_packages t (packages a)")
      case (Inl e)
      with Inr show ?thesis by (simp add: fanout_step_Inr)
    next
      case ps: (Inr ps)
      with Inr show ?thesis by (simp add: fanout_step_Inr Cons)
    qed
  qed
qed

text \<open>
  The response of \<^verbatim>\<open>Catalog\<close> in terms of what the origin answered: the
  accumulated packages come from the successful listings alone, and the
  branch taken depends on whether there was any.
\<close>

lemma Catalog_char:
  "fst (Catalog c env s w) =
     bind_e (add_all (fetched (results c s (GitHubUsers env))) [])
       (\<lambda>ps.
          if fetched (results c s (GitHubUsers env)) = []
          then Inr (Encode (WriteHeader (Header_Set w ''Content-Type'' ''application/json'') 400)
                 (ErrorsJSON \<lparr>Errors = append_slice None
                    (map error_entry (failures (results c s (GitHubUsers env))))\<rparr>))
          else bind_e (repositories ps (Some []))
                 (\<lambda>reps. Inr (Encode (Header_Set w ''Content-Type'' ''application/json'')
                    (CatalogJSON reps))))"
proof -
  let ?rs = "results c s (GitHubUsers env)"
  have f: "fst (fanout c (GitHubUsers env) s accum0) = run_steps ?rs accum0"
    by (rule fanout_results)
  obtain x s' where fo: "fanout c (GitHubUsers env) s accum0 = (x, s')"
    by (cases "fanout c (GitHubUsers env) s accum0")
  with f have x: "x = run_steps ?rs accum0" by simp
  show ?thesis
  proof (cases "add_all (fetched ?rs) []")
    case (Inl e)
    with x have "x = Inl e" by (simp add: run_steps_char accum0_def)
    with fo Inl show ?thesis by (simp add: Catalog_def)
  next
    case (Inr ps)
    with x have "x = Inr \<lparr>successes = length (fetched ?rs), packages = ps,
           errors = \<lparr>Errors = append_slice None (map error_entry (failures ?rs))\<rparr>\<rparr>"
      by (simp add: run_steps_char accum0_def)
    with fo Inr show ?thesis by (simp add: Catalog_def Let_def)
  qed
qed

subsection \<open>The accumulated packages\<close>

lemma missing_field_cases:
  "missing_field pack =
     (case pack of
        None \<Rightarrow> Inl NilPointerDereference
      | Some p \<Rightarrow>
          if Name p = None then Inr True
          else (case Owner p of
                  None \<Rightarrow> Inl NilPointerDereference
                | Some u \<Rightarrow> Inr (Login u = None)))"
  by (simp add: missing_field_def Owner_Login_def field_def deref_def split: option.splits)

lemma missing_field_guard:
  "missing_field p =
     (if guard_defined p then Inr (key p = None) else Inl NilPointerDereference)"
  by (auto simp: missing_field_cases guard_defined_def key_def split: option.splits)

lemma same_package_key:
  assumes "key t = Some kt" and "key p = Some kp"
  shows "same_package t p = Inr (kt = kp)"
  using assms
  by (auto simp: same_package_def key_def Owner_Login_def field_def deref_def
      split: option.splits)

lemma scan_found_key:
  assumes "key t = Some kt" and "\<forall>p \<in> set ps. key p \<noteq> None"
  shows "scan_found t ps = Inr (Some kt \<in> set (map key ps))"
  using assms
proof (induction ps)
  case Nil
  then show ?case by simp
next
  case (Cons p ps)
  then obtain kp where kp: "key p = Some kp" by auto
  with Cons show ?case by (auto simp: same_package_key [OF Cons.prems(1) kp])
qed

lemma keyed_first_observations:
  "\<forall>p \<in> set ps. key p \<noteq> None \<Longrightarrow> \<forall>p \<in> set (first_observations ts ps). key p \<noteq> None"
proof (induction ts arbitrary: ps)
  case Nil
  then show ?case by simp
next
  case (Cons t ts)
  show ?case
  proof (cases "key t = None \<or> key t \<in> set (map key ps)")
    case True
    with Cons.IH [OF Cons.prems] show ?thesis by simp
  next
    case False
    then have "\<forall>p \<in> set (ps @ [t]). key p \<noteq> None"
      using Cons.prems by auto
    from Cons.IH [OF this] False show ?thesis by auto
  qed
qed

lemma add_packages_char:
  assumes "\<forall>p \<in> set ps. key p \<noteq> None"
  shows "add_packages ts ps =
     (if list_all guard_defined ts then Inr (first_observations ts ps)
      else Inl NilPointerDereference)"
  using assms
proof (induction ts arbitrary: ps)
  case Nil
  show ?case by simp
next
  case (Cons t ts)
  show ?case
  proof (cases "guard_defined t")
    case False
    then show ?thesis by (simp add: missing_field_guard)
  next
    case True
    show ?thesis
    proof (cases "key t")
      case None
      with True Cons show ?thesis by (simp add: missing_field_guard)
    next
      case (Some kt)
      have sf: "scan_found t ps = Inr (Some kt \<in> set (map key ps))"
        using Some Cons.prems by (rule scan_found_key)
      have keyed: "\<forall>p \<in> set (ps @ [t]). key p \<noteq> None"
        using Some Cons.prems by auto
      show ?thesis
        using True Some sf Cons.IH [OF Cons.prems] Cons.IH [OF keyed]
        by (simp add: missing_field_guard)
    qed
  qed
qed

lemma first_observations_append:
  "first_observations (ts @ us) ps = first_observations us (first_observations ts ps)"
  by (induction ts arbitrary: ps) auto

lemma add_all_char:
  assumes "\<forall>p \<in> set ps. key p \<noteq> None"
  shows "add_all tss ps =
     (if list_all (list_all guard_defined) tss then Inr (first_observations (concat tss) ps)
      else Inl NilPointerDereference)"
  using assms
proof (induction tss arbitrary: ps)
  case Nil
  show ?case by simp
next
  case (Cons ts tss)
  have keyed: "\<forall>p \<in> set (first_observations ts ps). key p \<noteq> None"
    using Cons.prems by (rule keyed_first_observations)
  show ?case
    using Cons.IH [OF keyed]
    by (simp add: add_packages_char [OF Cons.prems] first_observations_append)
qed

lemma repositories_char:
  assumes "\<forall>p \<in> set ps. key p \<noteq> None"
  shows "repositories ps reps = Inr (append_slice reps (map entry (List.map_filter key ps)))"
  using assms
proof (induction ps arbitrary: reps)
  case Nil
  show ?case by (simp add: List.map_filter_simps)
next
  case (Cons p ps)
  then obtain l n where k: "key p = Some (l, n)" by auto
  then have g: "guard_defined p"
    by (auto simp: key_def guard_defined_def split: option.splits)
  from k have d: "bind_e (Owner_Login p) deref = Inr l" "bind_e (field p Name) deref = Inr n"
    by (auto simp: key_def Owner_Login_def field_def deref_def split: option.splits)
  show ?case
    using Cons k g d
    by (simp add: missing_field_guard List.map_filter_simps entry_def append_slice_append)
qed

text \<open>The whole handler, as a function of what the origin answered.\<close>

lemma Catalog_response:
  "fst (Catalog c env s w) =
     (if \<not> list_all (list_all guard_defined) (fetched (results c s (GitHubUsers env)))
      then Inl NilPointerDereference
      else if fetched (results c s (GitHubUsers env)) = []
      then Inr (Encode (WriteHeader (Header_Set w ''Content-Type'' ''application/json'') 400)
             (ErrorsJSON \<lparr>Errors = append_slice None
                (map error_entry (failures (results c s (GitHubUsers env))))\<rparr>))
      else Inr (Encode (Header_Set w ''Content-Type'' ''application/json'')
             (CatalogJSON (Some (map entry (List.map_filter key
                (first_observations (concat (fetched (results c s (GitHubUsers env)))) [])))))))"
proof -
  have keyed: "\<forall>p \<in> set (first_observations ts []). key p \<noteq> None" for ts
    by (rule keyed_first_observations) simp
  show ?thesis
    by (simp add: Catalog_char add_all_char repositories_char [OF keyed])
qed

subsection \<open>The responses of Catalog\<close>

lemma append_slice_None_nonempty: "xs \<noteq> [] \<Longrightarrow> append_slice None xs = Some xs"
  by (simp add: append_slice_def)

lemma length_results: "length (results c s users) = length users"
  by (induction users arbitrary: s) (auto split: prod.splits)

lemma all_failed:
  "\<forall>r \<in> set rs. isl r \<Longrightarrow> fetched rs = [] \<and> failures rs = map projl rs"
proof (induction rs)
  case Nil
  show ?case by simp
next
  case (Cons r rs)
  then show ?case by (cases r) auto
qed

lemma GitHubUsers_Cons: "\<exists>users. GitHubUsers env = hd (GitHubUsers env) # users"
proof -
  have "Split env (CHR '','') \<noteq> []"
    by (simp add: Split_comma_parts comma_parts_nonempty)
  then have "GitHubUsers env \<noteq> []"
    by (simp add: GitHubUsers_def Let_def Split_Nil)
  then show ?thesis by (cases "GitHubUsers env") auto
qed

lemma Encode_fresh:
  "StatusCode w = None \<Longrightarrow>
     StatusCode (Encode (Header_Set w k v) b) = Some 200 \<and>
     Written (Encode (Header_Set w k v) b) = Written w @ [b]"
  by (simp add: Encode_def WriteHeader_def Header_Set_def)

lemma Encode_400:
  "StatusCode w = None \<Longrightarrow>
     StatusCode (Encode (WriteHeader (Header_Set w k v) 400) b) = Some 400 \<and>
     Written (Encode (WriteHeader (Header_Set w k v) 400) b) = Written w @ [b]"
  by (simp add: Encode_def WriteHeader_def Header_Set_def)

text \<open>
  C2. When every call fails, \<^verbatim>\<open>Catalog\<close> answers with status 400 and one body,
  the error envelope whose entries are, call by call in the order of the
  identities, \<open>{code: UNKNOWN, message: "ListPackages: " + error text}\<close>;
  there is one call, and so one entry, for each identity.
\<close>

theorem C2_Catalog_all_failed:
  assumes "\<forall>r \<in> set (results c s (GitHubUsers env)). isl r"
    and "StatusCode w = None"
  shows "\<exists>w'. fst (Catalog c env s w) = Inr w' \<and>
     StatusCode w' = Some 400 \<and>
     Written w' = Written w @
       [ErrorsJSON \<lparr>Errors = Some (map (\<lambda>r. error_entry (projl r))
          (results c s (GitHubUsers env)))\<rparr>] \<and>
     length (results c s (GitHubUsers env)) = length (GitHubUsers env)"
proof -
  let ?rs = "results c s (GitHubUsers env)"
  from assms(1) have f: "fetched ?rs = []" "failures ?rs = map projl ?rs"
    using all_failed by blast+
  obtain users where "GitHubUsers env = hd (GitHubUsers env) # users"
    using GitHubUsers_Cons by blast
  then have "length ?rs = Suc (length users)"
    by (metis length_results length_Cons)
  then have "?rs \<noteq> []" by auto
  then have "append_slice None (map error_entry (failures ?rs)) =
      Some (map (\<lambda>r. error_entry (projl r)) ?rs)"
    by (simp add: f(2) append_slice_None_nonempty comp_def)
  then show ?thesis
    using f(1) Encode_400 [OF assms(2)]
    by (simp add: Catalog_response length_results)
qed

theorem C2_Catalog_all_failed_witness:
  "sent (Catalog origin_S4 ''org1'' [] NewResponseWriter) =
     Inr (Some 400,
       [ErrorsJSON \<lparr>Errors = Some
          [\<lparr>Code = ERROR_UNKNOWN, Message = ''ListPackages: boom'', Detail = None\<rparr>,
           \<lparr>Code = ERROR_UNKNOWN, Message = ''ListPackages: boom'', Detail = None\<rparr>]\<rparr>])"
proof -
  have rs: "results origin_S4 [] (GitHubUsers ''org1'') = [Inl ''boom'', Inl ''boom'']"
    by code_simp
  have "\<forall>r \<in> set (results origin_S4 [] (GitHubUsers ''org1'')). isl r"
    unfolding rs by simp
  moreover have "StatusCode NewResponseWriter = None"
    by (simp add: NewResponseWriter_def)
  ultimately show ?thesis
    using C2_Catalog_all_failed [of origin_S4 "[]" "''org1''" NewResponseWriter]
    unfolding rs
    by (auto simp: sent_def error_entry_def NewResponseWriter_def)
qed

lemma length_fetched_failures: "length (fetched rs) + length (failures rs) = length rs"
  by (induction rs rule: fetched.induct) auto

lemma stub_fanout_log:
  "\<exists>rest. snd (fanout (stub_client lp gv) users log a) = log @ rest \<and>
     (users \<noteq> [] \<longrightarrow> rest \<noteq> [] \<and> hd rest = hd users)"
proof (induction users arbitrary: log a)
  case Nil
  show ?case by simp
next
  case (Cons user users)
  have call: "ListPackages (stub_client lp gv) log user packageType =
      (lp (length log) user, log @ [user])"
    by (simp add: stub_client_def)
  show ?case
  proof (cases "fanout_step (lp (length log) user) a")
    case (Inl e)
    with call show ?thesis by simp
  next
    case (Inr a')
    from Cons [of "log @ [user]" a'] obtain rest where
      "snd (fanout (stub_client lp gv) users (log @ [user]) a') = (log @ [user]) @ rest"
      by blast
    with call Inr show ?thesis by simp
  qed
qed

lemma snd_Catalog: "snd (Catalog c env s w) = snd (fanout c (GitHubUsers env) s accum0)"
  by (simp add: Catalog_def Let_def split: prod.splits sum.splits)

text \<open>
  C10. The identity sequence is never empty; the fan-out loop therefore makes
  at least one call (a stub origin that records its calls has been asked for
  the first identity whatever it answers, also when the handler panics); and
  a response of \<^verbatim>\<open>Catalog\<close> with status 400 carries an error envelope whose
  \<open>errors\<close> array is a non-nil slice with at least one entry.
\<close>

theorem C10_at_least_one_fetch_and_error:
  "GitHubUsers env \<noteq> [] \<and>
   (\<exists>rest. snd (Catalog (stub_client lp gv) env log w) = log @ hd (GitHubUsers env) # rest) \<and>
   (StatusCode w = None \<and> fst (Catalog c env s w) = Inr w' \<and> StatusCode w' = Some 400 \<longrightarrow>
      (\<exists>e es. Written w' = Written w @ [ErrorsJSON \<lparr>Errors = Some (e # es)\<rparr>]))"
proof -
  obtain users where users: "GitHubUsers env = hd (GitHubUsers env) # users"
    using GitHubUsers_Cons by blast
  then have ne: "GitHubUsers env \<noteq> []" by auto
  obtain rest where
    rest: "snd (fanout (stub_client lp gv) (GitHubUsers env) log accum0) = log @ rest"
      "rest \<noteq> []" "hd rest = hd (GitHubUsers env)"
    using stub_fanout_log [of lp gv "GitHubUsers env" log accum0] ne by blast
  then have log: "\<exists>rest'. snd (Catalog (stub_client lp gv) env log w) =
      log @ hd (GitHubUsers env) # rest'"
    by (cases rest) (auto simp: snd_Catalog)
  have err: "\<exists>e es. Written w' = Written w @ [ErrorsJSON \<lparr>Errors = Some (e # es)\<rparr>]"
    if w: "StatusCode w = None" and r: "fst (Catalog c env s w) = Inr w'"
      and st: "StatusCode w' = Some 400"
  proof -
    let ?rs = "results c s (GitHubUsers env)"
    have nf: "fetched ?rs = []"
    proof (rule ccontr)
      assume "fetched ?rs \<noteq> []"
      with r have "StatusCode w' = Some 200"
        using Encode_fresh [OF w] by (auto simp: Catalog_response split: if_splits)
      with st show False by simp
    qed
    have "length (failures ?rs) = length (GitHubUsers env)"
      using length_fetched_failures [of ?rs] nf by (simp add: length_results)
    with ne obtain e es where "map error_entry (failures ?rs) = e # es"
      by (cases "failures ?rs") auto
    then have "append_slice None (map error_entry (failures ?rs)) = Some (e # es)"
      by (simp add: append_slice_None_Cons)
    with r nf show ?thesis
      using Encode_400 [OF w] by (auto simp: Catalog_response split: if_splits)
  qed
  from ne log err show ?thesis by blast
qed

theorem C10_at_least_one_fetch_and_error_witness:
  "(\<exists>rest. snd (Catalog origin_S4 ''org1'' [] NewResponseWriter) = '''' # rest) \<and>
   (\<exists>e es. map_sum id Written (fst (Catalog origin_S4 ''org1'' [] NewResponseWriter)) =
      Inr [ErrorsJSON \<lparr>Errors = Some (e # es)\<rparr>])"
proof -
  let ?w = "Encode (WriteHeader (Header_Set NewResponseWriter ''Content-Type''
      ''application/json'') 400)
    (ErrorsJSON \<lparr>Errors = Some [error_entry ''boom'', error_entry ''boom'']\<rparr>)"
  have rs: "results origin_S4 [] (GitHubUsers ''org1'') = [Inl ''boom'', Inl ''boom'']"
    by code_simp
  have users: "GitHubUsers ''org1'' = ['''', ''org1'']"
    by code_simp
  have r: "fst (Catalog origin_S4 ''org1'' [] NewResponseWriter) = Inr ?w"
    by (simp add: Catalog_response rs append_slice_None_Cons)
  have st: "StatusCode ?w = Some 400"
    by (simp add: Encode_def WriteHeader_def Header_Set_def NewResponseWriter_def)
  have w0: "StatusCode NewResponseWriter = None" "Written NewResponseWriter = []"
    by (simp_all add: NewResponseWriter_def)
  show ?thesis
    using C10_at_least_one_fetch_and_error
      [of "''org1''" "\<lambda>n user. Inl ''boom''" "\<lambda>owner name. Inl ''not stubbed''" "[]"
          NewResponseWriter origin_S4 "[]" ?w]
      r st w0
    by (simp add: users origin_S4_def packages_stub_def)
qed

text \<open>
  C9. An iteration of the fan-out loop whose call failed leaves \<^verbatim>\<open>packages\<close>
  and \<^verbatim>\<open>successes\<close> as they were and appends one entry to the errors. Over the
  whole loop the accumulated packages are what the inner loop makes of the
  successful listings alone, in their order. So two requests whose successful
  listings agree (and are not all missing) get the same outcome from
  \<^verbatim>\<open>Catalog\<close>, wherever the failed calls fall between them.
\<close>

theorem C9_failed_fetch_leaves_packages:
  "(\<exists>a'. fanout_step (Inl err) a = Inr a' \<and> packages a' = packages a \<and>
      successes a' = successes a \<and>
      Errors (errors a') = append_slice (Errors (errors a)) [error_entry err]) \<and>
   map_sum id packages (fst (fanout c users s a)) =
     add_all (fetched (results c s users)) (packages a) \<and>
   (fetched (results c s (GitHubUsers env)) = fetched (results c' s' (GitHubUsers env')) \<and>
    fetched (results c s (GitHubUsers env)) \<noteq> [] \<longrightarrow>
      fst (Catalog c env s w) = fst (Catalog c' env' s' w))"
proof -
  have "map_sum id packages (fst (fanout c users s a)) =
      add_all (fetched (results c s users)) (packages a)"
    by (cases "add_all (fetched (results c s users)) (packages a)")
       (simp_all add: fanout_results run_steps_char)
  then show ?thesis
    by (simp add: fanout_step_Inl Catalog_response)
qed

theorem C9_failed_fetch_leaves_packages_witness:
  "fst (Catalog origin_S3 ''org1'' [] NewResponseWriter) =
     fst (Catalog origin_S3_late_failure ''down'' [] NewResponseWriter) \<and>
   results origin_S3 [] (GitHubUsers ''org1'') = [Inl ''boom'', Inr listing_S3] \<and>
   results origin_S3_late_failure [] (GitHubUsers ''down'') =
     [Inr listing_S3, Inl ''timeout''] \<and>
   sent (Catalog origin_S3 ''org1'' [] NewResponseWriter) =
     Inr (Some 200, [CatalogJSON (Some [''org1/x'', ''org1/z''])])"
proof -
  have r1: "results origin_S3 [] (GitHubUsers ''org1'') = [Inl ''boom'', Inr listing_S3]"
    by code_simp
  have r2: "results origin_S3_late_failure [] (GitHubUsers ''down'') =
      [Inr listing_S3, Inl ''timeout'']"
    by code_simp
  have r3: "sent (Catalog origin_S3 ''org1'' [] NewResponseWriter) =
      Inr (Some 200, [CatalogJSON (Some [''org1/x'', ''org1/z''])])"
    by code_simp
  have "fst (Catalog origin_S3 ''org1'' [] NewResponseWriter) =
      fst (Catalog origin_S3_late_failure ''down'' [] NewResponseWriter)"
    using C9_failed_fetch_leaves_packages
      [where err = "''boom''" and a = accum0 and c = origin_S3 and s = "[]"
         and users = "GitHubUsers ''org1''" and env = "''org1''"
         and c' = origin_S3_late_failure and s' = "[]" and env' = "''down''"
         and w = NewResponseWriter]
    unfolding r1 r2 by simp
  with r1 r2 r3 show ?thesis by simp
qed

text \<open>
  When no element of a successful listing is nil and every record with a
  name has its owner object, the policy of C1 holds: one successful call is
  enough for status 200 and a body whose \<open>repositories\<close> is a non-nil slice;
  the errors of the failed calls are not in it.
\<close>

lemma Catalog_partial_failure:
  assumes "fetched (results c s (GitHubUsers env)) \<noteq> []"
    and "list_all (list_all guard_defined) (fetched (results c s (GitHubUsers env)))"
    and "StatusCode w = None"
  shows "\<exists>w' reps. fst (Catalog c env s w) = Inr w' \<and> StatusCode w' = Some 200 \<and>
     Written w' = Written w @ [CatalogJSON (Some reps)]"
  using assms(1,2) Encode_fresh [OF assms(3)]
  by (simp add: Catalog_response)

text \<open>
  C1 (the code at an input where it departs from the claim). The
  authenticated identity fails and the call for \<^verbatim>\<open>org1\<close> succeeds, so one
  call succeeded; its listing holds a record with a name and no owner object.
  Line 101 reads \<^verbatim>\<open>tempPack.Owner.Login\<close> through the nil owner and the handler
  panics: there is no response with status 200.
\<close>

theorem C1_success_then_panic:
  "results origin_owner_absent_after_failure [] (GitHubUsers ''org1'') =
     [Inl ''boom'', Inr [Some \<lparr>Name = Some ''x'', Owner = None\<rparr>]] \<and>
   sent (Catalog origin_owner_absent_after_failure ''org1'' [] NewResponseWriter) =
     Inl NilPointerDereference"
  by code_simp

text \<open>
  The records the guard of line 101 does skip: an element that is there and
  has no name, or has an owner object without a login, adds nothing to the
  accumulated packages, wherever it stands in a listing.
\<close>

lemma missing_field_True_iff:
  "missing_field t = Inr True \<longleftrightarrow>
     (\<exists>p. t = Some p \<and> (Name p = None \<or> (\<exists>u. Owner p = Some u \<and> Login u = None)))"
  by (auto simp: missing_field_cases split: option.splits if_splits)

lemma add_packages_append:
  "add_packages (xs @ ys) ps = bind_e (add_packages xs ps) (add_packages ys)"
proof (induction xs arbitrary: ps)
  case Nil
  show ?case by simp
next
  case (Cons x xs)
  show ?case
  proof (cases "missing_field x")
    case (Inl e)
    then show ?thesis by simp
  next
    case skip: (Inr skip)
    show ?thesis
    proof (cases "scan_found x ps")
      case (Inl e)
      with skip Cons show ?thesis by simp
    next
      case (Inr found)
      with skip Cons show ?thesis by simp
    qed
  qed
qed

lemma add_packages_skip:
  assumes "missing_field t = Inr True"
  shows "add_packages (xs @ t # ys) ps = add_packages (xs @ ys) ps"
proof -
  have eq: "add_packages (t # ys) = add_packages ys"
    using assms by (intro ext) simp
  show ?thesis
    unfolding add_packages_append [of xs "t # ys"] add_packages_append [of xs ys] eq ..
qed

text \<open>
  C5 (the code at an input where it departs from the claim). The successful
  listing holds a complete record and a record with a name and no owner
  object. The handler does not skip the second record: reading
  \<^verbatim>\<open>tempPack.Owner.Login\<close> at line 101 panics, and no response is written.
\<close>

theorem C5_owner_absent_panics:
  "results origin_owner_absent [] (GitHubUsers '''') =
     [Inr [pkg ''u1'' ''alpha'', Some \<lparr>Name = Some ''beta'', Owner = None\<rparr>]] \<and>
   sent (Catalog origin_owner_absent '''' [] NewResponseWriter) = Inl NilPointerDereference"
  by code_simp

subsection \<open>The repository strings\<close>

lemma distinct_first_observations:
  "distinct (map key ps) \<Longrightarrow> distinct (map key (first_observations ts ps))"
  by (induction ts arbitrary: ps) auto

lemma set_first_observations: "set (first_observations ts ps) \<subseteq> set ps \<union> set ts"
proof (induction ts arbitrary: ps)
  case Nil
  show ?case by simp
next
  case (Cons t ts)
  from Cons [of ps] Cons [of "ps @ [t]"] show ?case by auto
qed

lemma map_filter_key:
  "\<forall>p \<in> set ps. key p \<noteq> None \<Longrightarrow> map Some (List.map_filter key ps) = map key ps"
  by (induction ps) (auto simp: List.map_filter_simps)

lemma catalog_keys:
  fixes ts :: "Package option list"
  defines "ks \<equiv> List.map_filter key (first_observations ts [])"
  shows "distinct ks" and "\<forall>k \<in> set ks. \<exists>p \<in> set ts. key p = Some k"
proof -
  let ?ps = "first_observations ts []"
  have keyed: "\<forall>p \<in> set ?ps. key p \<noteq> None"
    by (rule keyed_first_observations) simp
  have m: "map Some ks = map key ?ps"
    unfolding ks_def using keyed by (rule map_filter_key)
  have "distinct (map key ?ps)"
    by (rule distinct_first_observations) simp
  with m have "distinct (map Some ks)" by simp
  then show "distinct ks" by (simp add: distinct_map)
  show "\<forall>k \<in> set ks. \<exists>p \<in> set ts. key p = Some k"
  proof
    fix k assume "k \<in> set ks"
    then have "Some k \<in> set (map Some ks)" by simp
    with m obtain p where "p \<in> set ?ps" "key p = Some k" by auto
    moreover have "set ?ps \<subseteq> set ts"
      using set_first_observations [of ts "[]"] by simp
    ultimately show "\<exists>p \<in> set ts. key p = Some k" by auto
  qed
qed

lemma entry_slash: "CHR ''/'' \<in> set (entry k)"
  by (simp add: entry_def)

lemma takeWhile_until:
  "c \<notin> set l \<Longrightarrow> takeWhile (\<lambda>ch. ch \<noteq> c) (l @ c # n) = l"
  by (induction l) auto

lemma dropWhile_until:
  "c \<notin> set l \<Longrightarrow> dropWhile (\<lambda>ch. ch \<noteq> c) (l @ c # n) = c # n"
  by (induction l) auto

lemma takeWhile_entry:
  "CHR ''/'' \<notin> set (fst k) \<Longrightarrow> takeWhile (\<lambda>ch. ch \<noteq> CHR ''/'') (entry k) = fst k"
  by (simp add: entry_def takeWhile_until)

lemma dropWhile_entry:
  "CHR ''/'' \<notin> set (fst k) \<Longrightarrow>
     drop 1 (dropWhile (\<lambda>ch. ch \<noteq> CHR ''/'') (entry k)) = snd k"
  by (simp add: entry_def dropWhile_until)

lemma entry_inj:
  assumes "CHR ''/'' \<notin> set (fst k)" and "CHR ''/'' \<notin> set (fst k')"
    and "entry k = entry k'"
  shows "k = k'"
proof -
  have "fst k = fst k'"
    using takeWhile_entry [OF assms(1)] takeWhile_entry [OF assms(2)] assms(3) by simp
  moreover have "snd k = snd k'"
    using dropWhile_entry [OF assms(1)] dropWhile_entry [OF assms(2)] assms(3) by simp
  ultimately show ?thesis by (simp add: prod_eq_iff)
qed

lemma entry_one_slash:
  assumes "fst k \<noteq> []" and "snd k \<noteq> []"
    and "CHR ''/'' \<notin> set (fst k)" and "CHR ''/'' \<notin> set (snd k)"
  shows "one_slash_nonempty_halves (entry k)"
proof -
  have "count_list (entry k) (CHR ''/'') = 1"
    using assms(3,4) by (simp add: entry_def count_list_0_iff)
  then show ?thesis
    using assms(1,2) takeWhile_entry [OF assms(3)] dropWhile_entry [OF assms(3)]
    by (simp add: one_slash_nonempty_halves_def)
qed

lemma Catalog_200:
  assumes "StatusCode w = None" and "fst (Catalog c env s w) = Inr w'"
    and "StatusCode w' = Some 200"
  shows "Written w' = Written w @
     [CatalogJSON (Some (map entry (List.map_filter key
        (first_observations (concat (fetched (results c s (GitHubUsers env)))) []))))]"
  using assms(2,3) Encode_fresh [OF assms(1)] Encode_400 [OF assms(1)]
  by (auto simp: Catalog_response split: if_splits)

text \<open>The response to scenario S3 with the longer listing.\<close>

lemma Catalog_S3:
  "fst (Catalog origin_S3 ''org1'' [] NewResponseWriter) =
     Inr (Encode (Header_Set NewResponseWriter ''Content-Type'' ''application/json'')
       (CatalogJSON (Some [''org1/x'', ''org1/z''])))"
proof -
  have rs: "results origin_S3 [] (GitHubUsers ''org1'') = [Inl ''boom'', Inr listing_S3]"
    by code_simp
  have g: "list_all guard_defined listing_S3"
    by code_simp
  have fo: "map entry (List.map_filter key (first_observations listing_S3 [])) =
      [''org1/x'', ''org1/z'']"
    by code_simp
  show ?thesis
    by (simp add: Catalog_response rs g fo)
qed

text \<open>
  C6 (as amended). In a response of \<^verbatim>\<open>Catalog\<close> with status 200 every string of
  \<open>repositories\<close> is \<open>namespace_login + "/" + name\<close> of a returned record whose
  name and login are both present. It contains at least one \<^verbatim>\<open>/\<close>; it contains
  exactly one, with a non-empty part on each side, whenever that login and
  that name are non-empty and hold no \<^verbatim>\<open>/\<close>. The handler checks neither.
\<close>

theorem C6_repository_strings:
  assumes "StatusCode w = None" and "fst (Catalog c env s w) = Inr w'"
    and "StatusCode w' = Some 200"
  shows "\<exists>ks. Written w' = Written w @ [CatalogJSON (Some (map entry ks))] \<and>
     (\<forall>k \<in> set ks. \<exists>p \<in> set (concat (fetched (results c s (GitHubUsers env)))).
        key p = Some k) \<and>
     (\<forall>k \<in> set ks. CHR ''/'' \<in> set (entry k)) \<and>
     (\<forall>k \<in> set ks.
        fst k \<noteq> [] \<and> snd k \<noteq> [] \<and> CHR ''/'' \<notin> set (fst k) \<and> CHR ''/'' \<notin> set (snd k) \<longrightarrow>
        one_slash_nonempty_halves (entry k))"
proof -
  let ?ts = "concat (fetched (results c s (GitHubUsers env)))"
  let ?ks = "List.map_filter key (first_observations ?ts [])"
  have "Written w' = Written w @ [CatalogJSON (Some (map entry ?ks))]"
    using assms by (rule Catalog_200)
  moreover have "\<forall>k \<in> set ?ks. \<exists>p \<in> set ?ts. key p = Some k"
    by (rule catalog_keys(2))
  ultimately show ?thesis
    using entry_slash entry_one_slash by blast
qed

theorem C6_repository_strings_witness:
  "sent (Catalog origin_S3 ''org1'' [] NewResponseWriter) =
     Inr (Some 200, [CatalogJSON (Some [''org1/x'', ''org1/z''])]) \<and>
   (\<exists>ks. map entry ks = [''org1/x'', ''org1/z''] \<and>
      (\<forall>k \<in> set ks. \<exists>p \<in> set listing_S3. key p = Some k)) \<and>
   one_slash_nonempty_halves ''org1/x'' \<and> one_slash_nonempty_halves ''org1/z''"
proof -
  let ?w = "Encode (Header_Set NewResponseWriter ''Content-Type'' ''application/json'')
       (CatalogJSON (Some [''org1/x'', ''org1/z'']))"
  have rs: "results origin_S3 [] (GitHubUsers ''org1'') = [Inl ''boom'', Inr listing_S3]"
    by code_simp
  have w0: "StatusCode NewResponseWriter = None" "Written NewResponseWriter = []"
    by (simp_all add: NewResponseWriter_def)
  have st: "StatusCode ?w = Some 200" "Written ?w = [CatalogJSON (Some [''org1/x'', ''org1/z''])]"
    using Encode_fresh [OF w0(1)] w0(2) by simp_all
  obtain ks where ks:
    "Written ?w = Written NewResponseWriter @ [CatalogJSON (Some (map entry ks))]"
    "\<forall>k \<in> set ks. \<exists>p \<in> set (concat (fetched (results origin_S3 []
        (GitHubUsers ''org1'')))). key p = Some k"
    using C6_repository_strings [OF w0(1) Catalog_S3 st(1)] by blast
  from ks(1) have e: "map entry ks = [''org1/x'', ''org1/z'']"
    by (simp add: st(2) w0(2))
  from ks(2) have k: "\<forall>k \<in> set ks. \<exists>p \<in> set listing_S3. key p = Some k"
    by (simp add: rs)
  have "\<exists>ks. map entry ks = [''org1/x'', ''org1/z''] \<and>
      (\<forall>k \<in> set ks. \<exists>p \<in> set listing_S3. key p = Some k)"
  proof (intro exI conjI)
    show "map entry ks = [''org1/x'', ''org1/z'']" by (fact e)
    show "\<forall>k \<in> set ks. \<exists>p \<in> set listing_S3. key p = Some k" by (fact k)
  qed
  moreover have "sent (Catalog origin_S3 ''org1'' [] NewResponseWriter) =
     Inr (Some 200, [CatalogJSON (Some [''org1/x'', ''org1/z''])])"
    by (simp add: sent_def Catalog_S3 st)
  moreover have "one_slash_nonempty_halves ''org1/x''" "one_slash_nonempty_halves ''org1/z''"
    by code_simp+
  ultimately show ?thesis by simp
qed

text \<open>
  C6 as stated fails: a container package named \<^verbatim>\<open>repo/image\<close> in the namespace
  \<^verbatim>\<open>u\<close> is listed with status 200 as \<^verbatim>\<open>u/repo/image\<close>, a string with two
  slashes.
\<close>

theorem C6_nested_name_counterexample:
  "sent (Catalog origin_nested_name '''' [] NewResponseWriter) =
     Inr (Some 200, [CatalogJSON (Some [''u/repo/image''])]) \<and>
   \<not> one_slash_nonempty_halves ''u/repo/image''"
  by code_simp

text \<open>A nil element anywhere in a successful listing makes the handler panic.\<close>

lemma Catalog_nil_element:
  assumes "None \<in> set (concat (fetched (results c s (GitHubUsers env))))"
  shows "fst (Catalog c env s w) = Inl NilPointerDereference"
proof -
  from assms obtain ts where "ts \<in> set (fetched (results c s (GitHubUsers env)))"
    "None \<in> set ts" by auto
  moreover have "\<not> guard_defined None"
    by (simp add: guard_defined_def)
  ultimately have
    "\<not> list_all (list_all guard_defined) (fetched (results c s (GitHubUsers env)))"
    unfolding list_all_iff by blast
  then show ?thesis by (simp add: Catalog_response)
qed

text \<open>The accumulator the fan-out loop ends with.\<close>

lemma fanout_accum:
  "fst (fanout c users s accum0) =
     (if list_all (list_all guard_defined) (fetched (results c s users))
      then Inr \<lparr>successes = length (fetched (results c s users)),
             packages = first_observations (concat (fetched (results c s users))) [],
             errors = \<lparr>Errors = append_slice None
                        (map error_entry (failures (results c s users)))\<rparr>\<rparr>
      else Inl NilPointerDereference)"
  by (simp add: fanout_results run_steps_char add_all_char accum0_def)

text \<open>
  C7 (as amended). In a response of \<^verbatim>\<open>Catalog\<close> with status 200 the strings of
  \<open>repositories\<close> are the entries of the keys \<open>(namespace_login, name)\<close> of the
  packages the fan-out loop accumulated, one string per accumulated package
  in their order; every accumulated package is an element of a successful
  listing; these keys are pairwise different under exact equality of both
  components; and the strings themselves are pairwise different whenever no
  login among these keys holds a \<^verbatim>\<open>/\<close>.
\<close>

theorem C7_repository_keys_distinct:
  assumes "StatusCode w = None" and "fst (Catalog c env s w) = Inr w'"
    and "StatusCode w' = Some 200"
  shows "\<exists>a ks. fst (fanout c (GitHubUsers env) s accum0) = Inr a \<and>
     set (packages a) \<subseteq> set (concat (fetched (results c s (GitHubUsers env)))) \<and>
     map key (packages a) = map Some ks \<and>
     Written w' = Written w @ [CatalogJSON (Some (map entry ks))] \<and>
     distinct ks \<and>
     ((\<forall>k \<in> set ks. CHR ''/'' \<notin> set (fst k)) \<longrightarrow> distinct (map entry ks))"
proof -
  let ?rs = "results c s (GitHubUsers env)"
  let ?ps = "first_observations (concat (fetched ?rs)) []"
  let ?ks = "List.map_filter key ?ps"
  let ?a = "\<lparr>successes = length (fetched ?rs), packages = ?ps,
             errors = \<lparr>Errors = append_slice None (map error_entry (failures ?rs))\<rparr>\<rparr>"
  have g: "list_all (list_all guard_defined) (fetched ?rs)"
    using assms(2) by (simp add: Catalog_response split: if_splits)
  then have a: "fst (fanout c (GitHubUsers env) s accum0) = Inr ?a"
    by (simp add: fanout_accum)
  have sub: "set (packages ?a) \<subseteq> set (concat (fetched ?rs))"
    using set_first_observations [of "concat (fetched ?rs)" "[]"] by simp
  have keyed: "\<forall>p \<in> set ?ps. key p \<noteq> None"
    by (rule keyed_first_observations) simp
  then have m: "map key (packages ?a) = map Some ?ks"
    by (simp add: map_filter_key)
  have w: "Written w' = Written w @ [CatalogJSON (Some (map entry ?ks))]"
    using assms by (rule Catalog_200)
  have d: "distinct ?ks"
    by (rule catalog_keys(1))
  have e: "distinct (map entry ?ks)" if "\<forall>k \<in> set ?ks. CHR ''/'' \<notin> set (fst k)"
  proof -
    have "inj_on entry (set ?ks)"
    proof (rule inj_onI)
      fix k k'
      assume "k \<in> set ?ks" "k' \<in> set ?ks" "entry k = entry k'"
      with that show "k = k'" by (blast intro: entry_inj)
    qed
    with d show ?thesis by (simp add: distinct_map)
  qed
  show ?thesis
  proof (intro exI conjI)
    show "fst (fanout c (GitHubUsers env) s accum0) = Inr ?a" by (fact a)
    show "set (packages ?a) \<subseteq> set (concat (fetched ?rs))" by (fact sub)
    show "map key (packages ?a) = map Some ?ks" by (fact m)
    show "Written w' = Written w @ [CatalogJSON (Some (map entry ?ks))]" by (fact w)
    show "distinct ?ks" by (fact d)
    show "(\<forall>k \<in> set ?ks. CHR ''/'' \<notin> set (fst k)) \<longrightarrow> distinct (map entry ?ks)"
      using e by blast
  qed
qed

theorem C7_repository_keys_distinct_witness:
  "(\<exists>a. fst (fanout origin_S3 (GitHubUsers ''org1'') [] accum0) = Inr a \<and>
      map key (packages a) = map Some [(''org1'', ''x''), (''org1'', ''z'')]) \<and>
   sent (Catalog origin_S3 ''org1'' [] NewResponseWriter) =
     Inr (Some 200, [CatalogJSON (Some (map entry [(''org1'', ''x''), (''org1'', ''z'')]))]) \<and>
   distinct (map entry [(''org1'', ''x''), (''org1'', ''z'')]) \<and>
   map entry [(''org1'', ''x''), (''org1'', ''z'')] = [''org1/x'', ''org1/z'']"
proof -
  let ?w = "Encode (Header_Set NewResponseWriter ''Content-Type'' ''application/json'')
       (CatalogJSON (Some [''org1/x'', ''org1/z'']))"
  let ?ks = "[(''org1'', ''x''), (''org1'', ''z'')]"
  have w0: "StatusCode NewResponseWriter = None" "Written NewResponseWriter = []"
    by (simp_all add: NewResponseWriter_def)
  have st: "StatusCode ?w = Some 200" "Written ?w = [CatalogJSON (Some [''org1/x'', ''org1/z''])]"
    using Encode_fresh [OF w0(1)] w0(2) by simp_all
  have keys: "map_sum id (\<lambda>a. map key (packages a))
      (fst (fanout origin_S3 (GitHubUsers ''org1'') [] accum0)) = Inr (map Some ?ks)"
    by code_simp
  have en: "map entry ?ks = [''org1/x'', ''org1/z'']"
    by code_simp
  obtain a ks where a: "fst (fanout origin_S3 (GitHubUsers ''org1'') [] accum0) = Inr a"
    and m: "map key (packages a) = map Some ks"
    and d: "(\<forall>k \<in> set ks. CHR ''/'' \<notin> set (fst k)) \<longrightarrow> distinct (map entry ks)"
    using C7_repository_keys_distinct [OF w0(1) Catalog_S3 st(1)] by blast
  from keys a m have "map Some ks = map Some ?ks" by simp
  then have ks: "ks = ?ks" by (rule map_injective) simp
  have "\<forall>k \<in> set ?ks. CHR ''/'' \<notin> set (fst k)" by simp
  with d ks have dist: "distinct (map entry ?ks)" by blast
  have ex: "\<exists>a. fst (fanout origin_S3 (GitHubUsers ''org1'') [] accum0) = Inr a \<and>
      map key (packages a) = map Some ?ks"
  proof (intro exI conjI)
    show "fst (fanout origin_S3 (GitHubUsers ''org1'') [] accum0) = Inr a" by (fact a)
    show "map key (packages a) = map Some ?ks" using m ks by simp
  qed
  have s: "sent (Catalog origin_S3 ''org1'' [] NewResponseWriter) =
     Inr (Some 200, [CatalogJSON (Some (map entry ?ks))])"
    unfolding en by (simp add: sent_def Catalog_S3 st)
  from ex s dist en show ?thesis by blast
qed

text \<open>
  C7 as stated fails: the records \<open>(a/b, c)\<close> and \<open>(a, b/c)\<close> have different
  keys, so both are kept, and both are written as \<^verbatim>\<open>a/b/c\<close>: absence of
  duplicate keys and absence of equal strings are not equivalent.
\<close>

theorem C7_slash_in_login_counterexample:
  "sent (Catalog origin_slash_in_login '''' [] NewResponseWriter) =
     Inr (Some 200, [CatalogJSON (Some [''a/b/c'', ''a/b/c''])]) \<and>
   \<not> distinct [''a/b/c'', ''a/b/c'']"
  by code_simp

end
